theory Spec2Isabelle
  imports Complex_Main "HOL-Library.AList"
begin

section \<open>Python values shared by the two callbacks\<close>

text \<open>
  The exceptions that the modelled methods of \<^verbatim>\<open>bluesky/callbacks/fitting.py\<close> can
  raise. A method that mutates its object before raising returns the exception
  together with the object as the raise leaves it.
\<close>

datatype py_error = KeyError | ZeroDivisionError | ValueError | AttributeError

text \<open>
  A Python \<^verbatim>\<open>dict\<close> that the code iterates over is an association list in insertion
  order (a dict literal has distinct keys). \<^verbatim>\<open>d.update(other)\<close> keeps the position of a
  key that is already present and appends a new key at the end.
\<close>

definition dict_update :: "('k \<times> 'a) list \<Rightarrow> ('k \<times> 'a) list \<Rightarrow> ('k \<times> 'a) list" where
  "dict_update d other = fold (\<lambda>(k, v). AList.update k v) other d"

section \<open>LiveFit: the incremental fit coordinator\<close>

text \<open>
  The model object (an \<^verbatim>\<open>lmfit.Model\<close>) is an external collaborator. The coordinator
  reads \<^verbatim>\<open>model.param_names\<close> and \<^verbatim>\<open>model.independent_vars\<close> and calls
  \<^verbatim>\<open>model.fit(ydata, **kwargs)\<close>; the solver is taken as a parameter, a function from the
  arguments it receives to an opaque result.
\<close>

datatype 'v kwarg = Series "'v list" | Guess 'v

record ('v, 'r) Model =
  param_names :: "string list"
  model_independent_vars :: "string list"
  fit :: "'v list \<Rightarrow> (string \<times> 'v kwarg) list \<Rightarrow> 'r"

text \<open>
  The attributes of a \<^verbatim>\<open>LiveFit\<close> instance. \<^verbatim>\<open>self.y\<close> is the field \<open>y_field\<close> and the
  name-mangled \<^verbatim>\<open>self.__stale\<close> is \<open>stale\<close>. \<open>update_every = None\<close> is Python's
  \<^verbatim>\<open>None\<close>.
\<close>

record ('v, 'r) LiveFit =
  ydata :: "'v list"
  independent_vars_data :: "(string \<times> 'v list) list"
  stale :: bool
  result :: "'r option"
  model :: "('v, 'r) Model"
  y_field :: string
  independent_vars :: "(string \<times> string) list"
  init_guess :: "(string \<times> 'v) list"
  update_every :: "int option"

text \<open>
  What a method does to the outside world: \<^verbatim>\<open>warnings.warn\<close> with the number of points
  that the message asks for, and the call of \<^verbatim>\<open>model.fit\<close> with its arguments.
\<close>

datatype 'v effect = Warn nat | FitCall "'v list" "(string \<times> 'v kwarg) list"

fun is_FitCall :: "'v effect \<Rightarrow> bool" where
  "is_FitCall (FitCall ys kw) = True"
| "is_FitCall (Warn n) = False"

definition fits :: "'v effect list \<Rightarrow> nat" where
  "fits fx = length (filter is_FitCall fx)"

text \<open>\<^verbatim>\<open>_reset\<close> (lines 66-71).\<close>

definition reset :: "('v, 'r) LiveFit \<Rightarrow> ('v, 'r) LiveFit" where
  "reset s = s\<lparr>result := None, stale := False, ydata := [],
     independent_vars_data := map (\<lambda>(k, v). (k, [])) (independent_vars_data s)\<rparr>"

text \<open>
  The setter of the property \<^verbatim>\<open>independent_vars\<close> (lines 54-64): a binding whose keys
  are not the model's independent variables is refused with \<^verbatim>\<open>ValueError\<close>; an accepted
  binding replaces the series dictionary by one empty list per key and resets. The
  binding is a dict, so its keys are distinct and the comprehension
  \<^verbatim>\<open>{k: [] for k in val}\<close> has one item per item of the binding, in the same order.
\<close>

definition set_independent_vars ::
  "(string \<times> string) list \<Rightarrow> ('v, 'r) LiveFit \<Rightarrow> py_error + ('v, 'r) LiveFit" where
  "set_independent_vars val s =
     (if set (map fst val) \<noteq> set (model_independent_vars (model s)) then Inl ValueError
      else Inr (reset (s\<lparr>independent_vars := val,
                         independent_vars_data := map (\<lambda>(k, f). (k, [])) val\<rparr>)))"

text \<open>
  \<^verbatim>\<open>__init__\<close> (lines 31-43). The attributes are assigned in the order of the source; the
  assignment to \<^verbatim>\<open>self.independent_vars\<close> runs the setter, which may raise.
\<close>

definition LiveFit_init ::
  "('v, 'r) Model \<Rightarrow> string \<Rightarrow> (string \<times> string) list \<Rightarrow> (string \<times> 'v) list option \<Rightarrow>
   int option \<Rightarrow> py_error + ('v, 'r) LiveFit" where
  "LiveFit_init m yf ivs guess ue =
     (case set_independent_vars ivs
        \<lparr>ydata = [], independent_vars_data = [], stale = False, result = None,
         model = m, y_field = yf, independent_vars = [], init_guess = [],
         update_every = Some 1\<rparr> of
        Inl e \<Rightarrow> Inl e
      | Inr s \<Rightarrow> Inr (s\<lparr>init_guess := (case guess of None \<Rightarrow> [] | Some g \<Rightarrow> g),
                         update_every := ue\<rparr>))"

text \<open>
  \<^verbatim>\<open>update_fit\<close> (lines 109-119). The keyword arguments are the series dictionary
  updated with the initial guesses.
\<close>

definition fit_kwargs :: "('v, 'r) LiveFit \<Rightarrow> (string \<times> 'v kwarg) list" where
  "fit_kwargs s =
     dict_update (dict_update [] (map (\<lambda>(k, v). (k, Series v)) (independent_vars_data s)))
       (map (\<lambda>(k, g). (k, Guess g)) (init_guess s))"

definition update_fit :: "('v, 'r) LiveFit \<Rightarrow> 'v effect list \<times> ('v, 'r) LiveFit" where
  "update_fit s =
     (let N = length (param_names (model s)) in
      if length (ydata s) < N then ([Warn N], s)
      else ([FitCall (ydata s) (fit_kwargs s)],
            s\<lparr>result := Some (fit (model s) (ydata s) (fit_kwargs s)), stale := False\<rparr>))"

text \<open>
  \<^verbatim>\<open>update_caches\<close> (lines 104-107). The loop appends to the series one after the other;
  a role that the argument lacks raises \<^verbatim>\<open>KeyError\<close> and leaves the earlier appends done.
\<close>

fun append_each ::
  "(string \<times> 'v list) list \<Rightarrow> (string \<times> 'v) list \<Rightarrow> py_error option \<times> (string \<times> 'v list) list" where
  "append_each [] idv = (None, [])"
| "append_each ((k, v) # rest) idv =
     (case map_of idv k of
        None \<Rightarrow> (Some KeyError, (k, v) # rest)
      | Some a \<Rightarrow> (case append_each rest idv of (e, rest') \<Rightarrow> (e, (k, v @ [a]) # rest')))"

definition update_caches ::
  "'v \<Rightarrow> (string \<times> 'v) list \<Rightarrow> ('v, 'r) LiveFit \<Rightarrow> py_error option \<times> ('v, 'r) LiveFit" where
  "update_caches yv idv s =
     (case append_each (independent_vars_data s) idv of
        (e, ivd) \<Rightarrow> (e, s\<lparr>ydata := ydata s @ [yv], independent_vars_data := ivd\<rparr>))"

text \<open>
  The dict comprehension of line 81: one lookup in \<^verbatim>\<open>doc['data']\<close> per bound role, in the
  order of the binding; a missing field raises \<^verbatim>\<open>KeyError\<close>.
\<close>

fun lookup_bound ::
  "(string \<times> string) list \<Rightarrow> (string \<rightharpoonup> 'v) \<Rightarrow> py_error + (string \<times> 'v) list" where
  "lookup_bound [] data = Inr []"
| "lookup_bound ((k, f) # rest) data =
     (case data f of
        None \<Rightarrow> Inl KeyError
      | Some a \<Rightarrow> (case lookup_bound rest data of
                    Inl e \<Rightarrow> Inl e
                  | Inr idv \<Rightarrow> Inr ((k, a) # idv)))"

text \<open>
  \<^verbatim>\<open>start\<close>, \<^verbatim>\<open>event\<close> and \<^verbatim>\<open>stop\<close> (lines 73-102). The argument of \<open>event\<close> is
  \<^verbatim>\<open>doc['data']\<close>. A transition returns the exception it raises (if any), the effects
  it had, and the object as it leaves it. The remainder \<^verbatim>\<open>(i - 1) % update_every\<close> is
  Python's: it raises \<^verbatim>\<open>ZeroDivisionError\<close> for a zero divisor and has the sign of the
  divisor otherwise, as \<open>mod\<close> on \<open>int\<close> has.

  Modelled from the spec: the base class \<^verbatim>\<open>CallbackBase\<close> of \<^verbatim>\<open>.core\<close>, whose \<^verbatim>\<open>start\<close>,
  \<^verbatim>\<open>event\<close> and \<^verbatim>\<open>stop\<close> are the general-purpose callback plumbing that the spec leaves
  out of scope; the calls \<^verbatim>\<open>super().start(doc)\<close>, \<^verbatim>\<open>super().event(doc)\<close> and
  \<^verbatim>\<open>super().stop(doc)\<close> do nothing to the coordinator.
\<close>

definition start :: "('v, 'r) LiveFit \<Rightarrow> ('v, 'r) LiveFit" where
  "start s = reset s"

definition event ::
  "(string \<rightharpoonup> 'v) \<Rightarrow> ('v, 'r) LiveFit \<Rightarrow> py_error option \<times> 'v effect list \<times> ('v, 'r) LiveFit" where
  "event data s =
     (case data (y_field s) of
        None \<Rightarrow> (None, [], s)
      | Some yv \<Rightarrow>
          (case lookup_bound (independent_vars s) data of
             Inl e \<Rightarrow> (Some e, [], s)
           | Inr idv \<Rightarrow>
               (case update_caches yv idv s of
                  (Some e, s1) \<Rightarrow> (Some e, [], s1)
                | (None, s1) \<Rightarrow>
                    (let s2 = s1\<lparr>stale := True\<rparr> in
                     case update_every s2 of
                       None \<Rightarrow> (None, [], s2)
                     | Some k \<Rightarrow>
                         (let i = length (ydata s2);
                              N = length (param_names (model s2)) in
                          if i < N then (None, [], s2)
                          else if i = N then
                            (case update_fit s2 of (fx, s3) \<Rightarrow> (None, fx, s3))
                          else if k = 0 then (Some ZeroDivisionError, [], s2)
                          else if (int i - 1) mod k = 0 then
                            (case update_fit s2 of (fx, s3) \<Rightarrow> (None, fx, s3))
                          else (None, [], s2))))))"

definition stop :: "('v, 'r) LiveFit \<Rightarrow> 'v effect list \<times> ('v, 'r) LiveFit" where
  "stop s = (if stale s then update_fit s else ([], s))"

text \<open>
  Modelled from the spec: the document-stream deliverer, which is outside the source
  file. It pushes \<^verbatim>\<open>start\<close>, \<^verbatim>\<open>event\<close> and \<^verbatim>\<open>stop\<close> documents in arrival order, each
  transition processed to completion before the next document; an exception raised by a
  transition ends the delivery.
\<close>

datatype 'v doc = Start | Event "string \<rightharpoonup> 'v" | Stop

fun dispatch ::
  "'v doc \<Rightarrow> ('v, 'r) LiveFit \<Rightarrow> py_error option \<times> 'v effect list \<times> ('v, 'r) LiveFit" where
  "dispatch Start s = (None, [], start s)"
| "dispatch (Event data) s = event data s"
| "dispatch Stop s = (case stop s of (fx, s') \<Rightarrow> (None, fx, s'))"

fun run ::
  "'v doc list \<Rightarrow> ('v, 'r) LiveFit \<Rightarrow> py_error option \<times> 'v effect list \<times> ('v, 'r) LiveFit" where
  "run [] s = (None, [], s)"
| "run (d # ds) s =
     (case dispatch d s of
        (Some e, fx, s') \<Rightarrow> (Some e, fx, s')
      | (None, fx, s') \<Rightarrow> (case run ds s' of (e, fx', s'') \<Rightarrow> (e, fx @ fx', s'')))"

text \<open>
  The states a coordinator can be observed in: the one the constructor returns, and the
  one any transition or accepted rebinding leaves behind, whether the transition
  returned or raised.
\<close>

inductive reachable :: "('v, 'r) LiveFit \<Rightarrow> bool" where
  reach_init: "LiveFit_init m yf ivs guess ue = Inr s \<Longrightarrow> reachable s"
| reach_start: "reachable s \<Longrightarrow> reachable (start s)"
| reach_event: "reachable s \<Longrightarrow> reachable (snd (snd (event data s)))"
| reach_stop: "reachable s \<Longrightarrow> reachable (snd (stop s))"
| reach_rebind: "reachable s \<Longrightarrow> set_independent_vars val s = Inr s' \<Longrightarrow> reachable s'"

text \<open>
  An event document carries the fields of a binding when \<^verbatim>\<open>doc['data']\<close> has every
  field the binding names.
\<close>

definition carries :: "(string \<rightharpoonup> 'v) \<Rightarrow> (string \<times> string) list \<Rightarrow> bool" where
  "carries data binding = list_all (\<lambda>(k, f). data f \<noteq> None) binding"

text \<open>The invariants of the coordinator's state.\<close>

definition keys_bound :: "('v, 'r) LiveFit \<Rightarrow> bool" where
  "keys_bound s \<longleftrightarrow>
     set (map fst (independent_vars_data s)) = set (map fst (independent_vars s))"

definition series_aligned :: "('v, 'r) LiveFit \<Rightarrow> bool" where
  "series_aligned s \<longleftrightarrow>
     list_all (\<lambda>(k, v). length v = length (ydata s)) (independent_vars_data s)"

definition result_current :: "('v, 'r) LiveFit \<Rightarrow> bool" where
  "result_current s \<longleftrightarrow>
     stale s \<or> ydata s = [] \<or>
     result s = Some (fit (model s) (ydata s) (fit_kwargs s))"


text \<open>
  An event document qualifies for the coordinator when it carries the dependent
  field.
\<close>

definition qualifying :: "('v, 'r) LiveFit \<Rightarrow> (string \<rightharpoonup> 'v) \<Rightarrow> bool" where
  "qualifying s data \<longleftrightarrow> data (y_field s) \<noteq> None"

text \<open>
  The cadence as the specification words it, to be compared with the cadence of
  \<open>event\<close>: with \<^verbatim>\<open>update_every = k\<close>, fits at the sample counts \<open>N\<close>, \<open>N + k\<close>,
  \<open>N + 2k\<close>, ...
\<close>

definition spec_fit_counts :: "nat \<Rightarrow> nat \<Rightarrow> nat \<Rightarrow> bool" where
  "spec_fit_counts N k i \<longleftrightarrow> N \<le> i \<and> (i - N) mod k = 0"

subsection \<open>A concrete coordinator\<close>

text \<open>
  A model with two free parameters and the independent variable \<open>x\<close>, whose solver
  returns the arguments it was called with; the coordinator that
  \<^verbatim>\<open>LiveFit(model, 'det', {'x': 'motor'}, update_every=ue)\<close> constructs for it; and an event
  document with both fields.
\<close>

definition demo_model :: "(int, int list \<times> (string \<times> int kwarg) list) Model" where
  "demo_model = \<lparr>param_names = [''amplitude'', ''center''], model_independent_vars = [''x''],
     fit = Pair\<rparr>"

definition demo_coordinator ::
  "int option \<Rightarrow> (int, int list \<times> (string \<times> int kwarg) list) LiveFit" where
  "demo_coordinator ue =
     \<lparr>ydata = [], independent_vars_data = [(''x'', [])], stale = False, result = None,
      model = demo_model, y_field = ''det'', independent_vars = [(''x'', ''motor'')],
      init_guess = [], update_every = ue\<rparr>"

definition demo_event :: "int \<Rightarrow> int \<Rightarrow> (string \<rightharpoonup> int)" where
  "demo_event xv yv = [''motor'' \<mapsto> xv, ''det'' \<mapsto> yv]"

definition demo_state ::
  "int option \<Rightarrow> int doc list \<Rightarrow> (int, int list \<times> (string \<times> int kwarg) list) LiveFit" where
  "demo_state ue docs = snd (snd (run docs (demo_coordinator ue)))"

section \<open>Floating-point values\<close>

text \<open>
  The numbers of the peak statistics are numpy \<^verbatim>\<open>float64\<close> values. They are idealised:
  a finite value is an exact real number (no rounding, no overflow), and the results that
  numpy gives for a division by zero, the two infinities and not-a-number, are values of
  their own, since numpy continues with them (it emits a \<^verbatim>\<open>RuntimeWarning\<close>, not an
  exception). A zero divisor is taken as \<open>+0.0\<close>.
\<close>

datatype float = Finite real | PosInf | NegInf | NaN

fun fadd :: "float \<Rightarrow> float \<Rightarrow> float" where
  "fadd (Finite a) (Finite b) = Finite (a + b)"
| "fadd NaN v = NaN"
| "fadd v NaN = NaN"
| "fadd PosInf NegInf = NaN"
| "fadd NegInf PosInf = NaN"
| "fadd PosInf v = PosInf"
| "fadd v PosInf = PosInf"
| "fadd NegInf v = NegInf"
| "fadd v NegInf = NegInf"

fun fneg :: "float \<Rightarrow> float" where
  "fneg (Finite a) = Finite (- a)"
| "fneg PosInf = NegInf"
| "fneg NegInf = PosInf"
| "fneg NaN = NaN"

definition fsub :: "float \<Rightarrow> float \<Rightarrow> float" where
  "fsub a b = fadd a (fneg b)"

fun fabs :: "float \<Rightarrow> float" where
  "fabs (Finite a) = Finite \<bar>a\<bar>"
| "fabs PosInf = PosInf"
| "fabs NegInf = PosInf"
| "fabs NaN = NaN"

text \<open>The quotient of two finite values.\<close>

definition np_divide :: "real \<Rightarrow> real \<Rightarrow> float" where
  "np_divide a b =
     (if b \<noteq> 0 then Finite (a / b)
      else if 0 < a then PosInf else if a < 0 then NegInf else NaN)"

text \<open>\<^verbatim>\<open>np.mean\<close> of a sequence of floats; the mean of an empty sequence is not-a-number.\<close>

definition np_mean :: "float list \<Rightarrow> float" where
  "np_mean vs =
     (case foldl fadd (Finite 0) vs of
        Finite t \<Rightarrow> if vs = [] then NaN else Finite (t / real (length vs))
      | v \<Rightarrow> v)"

section \<open>The centroid primitive\<close>

text \<open>
  \<^verbatim>\<open>center_of_mass\<close> (lines 126-172) for a one-dimensional \<^verbatim>\<open>input\<close> and the defaults
  \<^verbatim>\<open>labels=None, index=None\<close>, which is how the one call in this file, at line 257, uses
  it. \<^verbatim>\<open>np.sum(input, None, None)\<close> is the sum of all elements, \<^verbatim>\<open>np.ogrid\<close> gives one
  index grid per axis, \<^verbatim>\<open>range(input.ndim)\<close> is the one axis \<open>0\<close>, and the result, a
  scalar per axis, is returned as a tuple of one coordinate.
\<close>

definition center_of_mass :: "real list \<Rightarrow> float list" where
  "center_of_mass input =
     (let normalizer = sum_list input;
          grids = [map real [0..<length input]];
          results = map (\<lambda>dir. np_divide (sum_list (map2 (*) input (grids ! dir))) normalizer)
                      [0..<1]
      in results)"

section \<open>PeakStats: the peak statistics engine\<close>

text \<open>
  The values of the stats fields: \<^verbatim>\<open>None\<close>, a pair \<^verbatim>\<open>(x, y)\<close>, a float, an array, and
  the dict \<^verbatim>\<open>{"m": m, "b": b}\<close> of the background line.
\<close>

datatype stat = Unset | Point real real | Scalar float | Array "float list" | LinBkg real real

text \<open>
  How a modelled call ends: it returns, it raises, or it leaves what the model covers.
  The model covers \<^verbatim>\<open>_calc_stats\<close> for two arrays of the same length (as \<^verbatim>\<open>compute\<close> passes
  them) and for a background line whose slope and intercept are finite.
\<close>

datatype 'a outcome = Returned 'a | Raised py_error | Unmodelled

text \<open>Python's slices \<^verbatim>\<open>a[:stop]\<close> and \<^verbatim>\<open>a[start:]\<close>, negative bounds counting from the end.\<close>

definition slice_to :: "int \<Rightarrow> 'a list \<Rightarrow> 'a list" where
  "slice_to e xs = (if 0 \<le> e then take (nat e) xs else take (length xs - nat (- e)) xs)"

definition slice_from :: "int \<Rightarrow> 'a list \<Rightarrow> 'a list" where
  "slice_from b xs = (if 0 \<le> b then drop (nat b) xs else drop (length xs - nat (- b)) xs)"

definition mean :: "real list \<Rightarrow> real" where
  "mean xs = sum_list xs / real (length xs)"

text \<open>
  The background removal of lines 243-253 for a given \<^verbatim>\<open>edge_count\<close>: the slope, the
  intercept and the new \<^verbatim>\<open>y\<close>. The result is \<open>None\<close> where numpy gives a slope that is not
  finite: the mean of an empty slice is not-a-number, and so is the quotient when the two
  anchor points have the same abscissa.
\<close>

definition remove_background ::
  "real list \<Rightarrow> real list \<Rightarrow> int \<Rightarrow> (real \<times> real \<times> real list) option" where
  "remove_background x y edge_count =
     (if slice_to edge_count x = [] \<or> slice_to edge_count y = [] \<or>
         slice_from (- edge_count) x = [] \<or> slice_from (- edge_count) y = [] then None
      else
        (let left_x = mean (slice_to edge_count x);
             left_y = mean (slice_to edge_count y);
             right_x = mean (slice_from (- edge_count) x);
             right_y = mean (slice_from (- edge_count) y)
         in if right_x - left_x = 0 then None
            else
              (let m = (right_y - left_y) / (right_x - left_x);
                   b = left_y - m * left_x
               in Some (m, b, map2 (\<lambda>xv yv. yv - (m * xv + b)) x y))))"

definition detrended :: "real list \<Rightarrow> real list \<Rightarrow> int option \<Rightarrow> real list option" where
  "detrended x y edge_count =
     (case edge_count of
        None \<Rightarrow> Some y
      | Some e \<Rightarrow> map_option (\<lambda>(m, b, y'). y') (remove_background x y e))"

text \<open>\<^verbatim>\<open>np.argmin\<close> and \<^verbatim>\<open>np.argmax\<close>: the first index of the extreme value.\<close>

definition argmin :: "real list \<Rightarrow> nat" where
  "argmin ys = length (takeWhile (\<lambda>v. v \<noteq> Min (set ys)) ys)"

definition argmax :: "real list \<Rightarrow> nat" where
  "argmax ys = length (takeWhile (\<lambda>v. v \<noteq> Max (set ys)) ys)"

text \<open>
  \<^verbatim>\<open>np.interp(c, np.arange(len(x)), x)\<close> for one coordinate \<open>c\<close> and a non-empty \<open>x\<close>:
  linear interpolation between the neighbouring indices, the first or last value outside
  the index range, not-a-number for not-a-number, but the single value for every \<open>c\<close>
  when \<open>x\<close> has one element.
\<close>

definition interp :: "float \<Rightarrow> real list \<Rightarrow> float" where
  "interp c fp =
     (if length fp = 1 then Finite (fp ! 0)
      else
        (case c of
           NaN \<Rightarrow> NaN
         | PosInf \<Rightarrow> Finite (last fp)
         | NegInf \<Rightarrow> Finite (fp ! 0)
         | Finite v \<Rightarrow>
             if v < 0 then Finite (fp ! 0)
             else if real (length fp - 1) \<le> v then Finite (last fp)
             else (let j = nat \<lfloor>v\<rfloor>
                   in Finite ((fp ! Suc j - fp ! j) * (v - real j) + fp ! j))))"

text \<open>
  Lines 258-268. \<open>half_max\<close> is \<^verbatim>\<open>mid\<close>; \<open>crossing_indices\<close> is
  \<^verbatim>\<open>np.where(np.diff((y > mid).astype(np.int)))[0]\<close>, the indices \<open>i\<close> at which
  \<^verbatim>\<open>y > mid\<close> differs between \<open>i\<close> and \<open>i + 1\<close>, in ascending order (\<^verbatim>\<open>np.int\<close> is the
  builtin \<^verbatim>\<open>int\<close> in the numpy versions that have it); \<open>crossing_x\<close> is the body of the
  loop for the two points \<open>(x0, y0)\<close> and \<open>(x1, y1)\<close>, with \<open>y0\<close> and \<open>y1\<close> relative
  to \<^verbatim>\<open>mid\<close>. In \<open>crossing_x\<close> the slope \<^verbatim>\<open>m = dy / dx\<close> is infinite when \<open>dx = 0\<close> and
  \<open>dy \<noteq> 0\<close>, and then \<^verbatim>\<open>-_y[0] / m\<close> is zero; it is zero when \<open>dy = 0\<close> and
  \<open>dx \<noteq> 0\<close>, with the sign of \<open>dx\<close>, and then \<^verbatim>\<open>-_y[0] / m\<close> is infinite or
  not-a-number.
\<close>

definition half_max :: "real list \<Rightarrow> real" where
  "half_max y = (Max (set y) + Min (set y)) / 2"

definition crossing_indices :: "real list \<Rightarrow> real \<Rightarrow> nat list" where
  "crossing_indices y mid =
     filter (\<lambda>i. (mid < y ! Suc i) \<noteq> (mid < y ! i)) [0..<length y - 1]"

definition crossing_x :: "real \<Rightarrow> real \<Rightarrow> real \<Rightarrow> real \<Rightarrow> float" where
  "crossing_x x0 x1 y0 y1 =
     (let dx = x1 - x0; dy = y1 - y0 in
      if dx = 0 then (if dy = 0 then NaN else Finite x0)
      else if dy = 0 then
        (if y0 = 0 then NaN else if (y0 < 0) = (0 < dx) then PosInf else NegInf)
      else Finite (- y0 / (dy / dx) + x0))"

definition cen_list :: "real list \<Rightarrow> real list \<Rightarrow> float list" where
  "cen_list x y =
     (let mid = half_max y in
      map (\<lambda>cr. crossing_x (x ! cr) (x ! Suc cr) (y ! cr - mid) (y ! Suc cr - mid))
        (crossing_indices y mid))"

text \<open>
  Lines 255-280, on the \<^verbatim>\<open>y\<close> that the background removal leaves. An assignment
  \<^verbatim>\<open>fields[k] = v\<close> updates the dict; the \<^verbatim>\<open>Stats\<close> named tuple that is returned has the
  keys of \<^verbatim>\<open>fields\<close> as its field names and their values as its values. \<^verbatim>\<open>np.argmin\<close>
  raises \<^verbatim>\<open>ValueError\<close> for an empty array.
\<close>

definition peak_fields ::
  "real list \<Rightarrow> real list \<Rightarrow> (string \<times> stat) list \<Rightarrow> (string \<times> stat) list outcome" where
  "peak_fields x y flds =
     (if y = [] then Raised ValueError
      else
        (let f1 = AList.update ''min'' (Point (x ! argmin y) (y ! argmin y)) flds;
             f2 = AList.update ''max'' (Point (x ! argmax y) (y ! argmax y)) f1;
             f3 = AList.update ''com'' (Array (map (\<lambda>c. interp c x) (center_of_mass y))) f2;
             cl = cen_list x y
         in if cl \<noteq> [] then
              (let f4 = AList.update ''cen'' (Scalar (np_mean cl)) f3;
                   f5 = AList.update ''crossings'' (Array cl) f4
               in if 2 \<le> length cl then
                    Returned (AList.update ''fwhm'' (Scalar (fabs (fsub (last cl) (hd cl)))) f5)
                  else Returned f5)
            else Returned f3))"

text \<open>\<^verbatim>\<open>_calc_stats\<close> (lines 241-280).\<close>

definition calc_stats ::
  "real list \<Rightarrow> real list \<Rightarrow> (string \<times> stat) list \<Rightarrow> int option \<Rightarrow>
   (string \<times> stat) list outcome" where
  "calc_stats x y flds edge_count =
     (if length x \<noteq> length y then Unmodelled
      else
        (case edge_count of
           None \<Rightarrow> peak_fields x y flds
         | Some e \<Rightarrow>
             (case remove_background x y e of
                None \<Rightarrow> Unmodelled
              | Some (m, b, y') \<Rightarrow>
                  peak_fields x y' (AList.update ''lin_bkg'' (LinBkg m b) flds))))"

text \<open>
  The attributes of a \<^verbatim>\<open>PeakStats\<close> instance. \<^verbatim>\<open>self.x\<close> and \<^verbatim>\<open>self.y\<close> are \<open>x_name\<close> and
  \<open>y_name\<close>; \<open>attrs\<close> holds the attributes that \<^verbatim>\<open>setattr\<close> and \<^verbatim>\<open>getattr\<close> reach by name;
  \<open>der\<close> is \<^verbatim>\<open>self.der\<close>, \<open>None\<close> until a derivative pass has stored its \<^verbatim>\<open>Stats\<close>.

  Modelled from the spec: the event buffer \<^verbatim>\<open>self._events\<close> of the base class
  \<^verbatim>\<open>CollectThenCompute\<close> of \<^verbatim>\<open>.core\<close>, the ordered sequence of the \<^verbatim>\<open>data\<close> mappings of
  the event documents collected between start and stop, which \<^verbatim>\<open>compute\<close> consumes at
  stop.
\<close>

record PeakStats =
  x_name :: string
  y_name :: string
  edge_count :: "int option"
  compute_derivative :: bool
  stats_fields :: "(string \<times> stat) list"
  attrs :: "(string \<times> stat) list"
  der :: "(string \<times> stat) list option"
  x_data :: "real list option"
  y_data :: "real list option"
  events :: "(string \<rightharpoonup> real) list"

text \<open>
  \<^verbatim>\<open>__init__\<close> (lines 212-233). \<open>initial_stats_fields\<close> is the dict literal of lines
  218-226, with the key \<^verbatim>\<open>"lin_bnk"\<close> as line 225 spells it.
\<close>

definition initial_stats_fields :: "(string \<times> stat) list" where
  "initial_stats_fields =
     [(''min'', Unset), (''max'', Unset), (''com'', Unset), (''cen'', Unset),
      (''crossings'', Unset), (''fwhm'', Unset), (''lin_bnk'', Unset)]"

definition PeakStats_init :: "string \<Rightarrow> string \<Rightarrow> int option \<Rightarrow> bool \<Rightarrow> PeakStats" where
  "PeakStats_init xn yn ec cd =
     \<lparr>x_name = xn, y_name = yn, edge_count = ec, compute_derivative = cd,
      stats_fields = initial_stats_fields, attrs = dict_update [] initial_stats_fields,
      der = None, x_data = None, y_data = None, events = []\<rparr>"

text \<open>\<^verbatim>\<open>__getitem__\<close> (lines 235-239).\<close>

definition getitem :: "PeakStats \<Rightarrow> string \<Rightarrow> py_error + stat" where
  "getitem ps key =
     (if key \<in> set (map fst (stats_fields ps)) then
        (case map_of (attrs ps) key of
           None \<Rightarrow> Inl AttributeError
         | Some v \<Rightarrow> Inr v)
      else Inl KeyError)"

text \<open>
  \<^verbatim>\<open>compute\<close> (lines 282-329). \<open>collect\<close> is the loop of lines 290-298: an event that
  lacks either field is skipped. \<open>copy_fields\<close> is the loop of lines 312-313, which copies
  from the \<^verbatim>\<open>Stats\<close> tuple the fields that \<^verbatim>\<open>_stats_fields\<close> names.
\<close>

fun collect :: "string \<Rightarrow> string \<Rightarrow> (string \<rightharpoonup> real) list \<Rightarrow> (real \<times> real) list" where
  "collect xn yn [] = []"
| "collect xn yn (ev # evs) =
     (case ev xn of
        None \<Rightarrow> collect xn yn evs
      | Some xv \<Rightarrow>
          (case ev yn of
             None \<Rightarrow> collect xn yn evs
           | Some yv \<Rightarrow> (xv, yv) # collect xn yn evs))"

fun copy_fields ::
  "string list \<Rightarrow> (string \<times> stat) list \<Rightarrow> (string \<times> stat) list \<Rightarrow>
   py_error option \<times> (string \<times> stat) list" where
  "copy_fields [] stats a = (None, a)"
| "copy_fields (field # rest) stats a =
     (case map_of stats field of
        None \<Rightarrow> (Some AttributeError, a)
      | Some v \<Rightarrow> copy_fields rest stats (AList.update field v a))"

definition compute :: "PeakStats \<Rightarrow> unit outcome \<times> PeakStats" where
  "compute ps =
     (let ps1 = ps\<lparr>attrs := dict_update (attrs ps) (stats_fields ps)\<rparr>;
          x = map fst (collect (x_name ps) (y_name ps) (events ps));
          y = map snd (collect (x_name ps) (y_name ps) (events ps))
      in if x = [] then (Returned (), ps1)
         else
           (let ps2 = ps1\<lparr>x_data := Some x, y_data := Some y\<rparr> in
            case calc_stats x y (stats_fields ps) (edge_count ps) of
              Unmodelled \<Rightarrow> (Unmodelled, ps2)
            | Raised e \<Rightarrow> (Raised e, ps2)
            | Returned stats \<Rightarrow>
                (case copy_fields (map fst (stats_fields ps)) stats (attrs ps2) of
                   (Some e, a) \<Rightarrow> (Raised e, ps2\<lparr>attrs := a\<rparr>)
                 | (None, a) \<Rightarrow>
                     (let ps3 = ps2\<lparr>attrs := a\<rparr> in
                      if compute_derivative ps then
                        (let x_der = drop 1 x;
                             y_der = map2 (\<lambda>b a. b - a) (drop 1 y) y;
                             flds = dict_update (stats_fields ps)
                               [(''x'', Array (map Finite x_der)),
                                (''y'', Array (map Finite y_der))]
                         in case calc_stats x_der y_der flds (edge_count ps) of
                              Unmodelled \<Rightarrow> (Unmodelled, ps3)
                            | Raised e \<Rightarrow> (Raised e, ps3)
                            | Returned d \<Rightarrow> (Returned (), ps3\<lparr>der := Some d\<rparr>))
                      else (Returned (), ps3)))))"

subsection \<open>A concrete run of the engine\<close>

text \<open>Three event documents with the fields \<open>motor\<close> and \<open>det\<close>.\<close>

definition demo_peak_events :: "(string \<rightharpoonup> real) list" where
  "demo_peak_events =
     [[''motor'' \<mapsto> 0, ''det'' \<mapsto> 1], [''motor'' \<mapsto> 1, ''det'' \<mapsto> 5],
      [''motor'' \<mapsto> 2, ''det'' \<mapsto> 3]]"


section \<open>Properties of the coordinator\<close>

lemma lookup_bound_keys:
  "lookup_bound b data = Inr idv \<Longrightarrow> map fst idv = map fst b"
  by (induction b data arbitrary: idv rule: lookup_bound.induct)
     (auto split: option.splits sum.splits)

lemma lookup_bound_carries:
  "carries data b \<Longrightarrow> \<exists>idv. lookup_bound b data = Inr idv"
  by (induction b data rule: lookup_bound.induct)
     (auto simp: carries_def split: option.splits sum.splits)

lemma lookup_bound_missing:
  "\<not> carries data b \<Longrightarrow> lookup_bound b data = Inl KeyError"
  by (induction b data rule: lookup_bound.induct)
     (auto simp: carries_def split: option.splits sum.splits)

lemma append_each_ok:
  "set (map fst ivd) \<subseteq> set (map fst idv) \<Longrightarrow>
   append_each ivd idv = (None, map (\<lambda>(k, v). (k, v @ [the (map_of idv k)])) ivd)"
proof (induction ivd idv rule: append_each.induct)
  case (1 idv)
  then show ?case by simp
next
  case (2 k v rest idv)
  from 2(2) have "k \<in> fst ` set idv" by simp
  then obtain a where a: "map_of idv k = Some a"
    by (metis domD dom_map_of_conv_image_fst)
  with 2 show ?case by simp
qed

lemma event_cases:
  assumes "keys_bound s"
  shows "event data s = 
    (case data (y_field s) of None \<Rightarrow> (None, [], s)
     | Some yv \<Rightarrow> if \<not> carries data (independent_vars s) then (Some KeyError, [], s)
       else (let s2 = s\<lparr>ydata := ydata s @ [yv],
                 independent_vars_data := map (\<lambda>(k, v). (k, v @ [the (map_of (projr (lookup_bound (independent_vars s) data)) k)])) (independent_vars_data s), stale := True\<rparr>;
                 i = Suc (length (ydata s)); N = length (param_names (model s)) in
            case update_every s of None \<Rightarrow> (None, [], s2)
            | Some k \<Rightarrow> if i < N then (None, [], s2)
                          else if i = N then
                            (case update_fit s2 of (fx, s3) \<Rightarrow> (None, fx, s3))
                          else if k = 0 then (Some ZeroDivisionError, [], s2)
                          else if (int i - 1) mod k = 0 then
                            (case update_fit s2 of (fx, s3) \<Rightarrow> (None, fx, s3))
                          else (None, [], s2)))"
proof (cases "data (y_field s)")
  case None
  then show ?thesis by (simp add: event_def)
next
  case (Some yv)
  show ?thesis
  proof (cases "carries data (independent_vars s)")
    case False
    then show ?thesis using Some by (simp add: event_def lookup_bound_missing)
  next
    case True
    then obtain idv where idv: "lookup_bound (independent_vars s) data = Inr idv"
      using lookup_bound_carries by blast
    have "set (map fst (independent_vars_data s)) \<subseteq> set (map fst idv)"
      using assms lookup_bound_keys[OF idv] by (simp add: keys_bound_def)
    from append_each_ok[OF this] show ?thesis using Some True idv
      by (simp add: event_def update_caches_def Let_def split: option.splits)
  qed
qed


lemma update_fit_fields [simp]:
  "ydata (snd (update_fit s)) = ydata s"
  "independent_vars_data (snd (update_fit s)) = independent_vars_data s"
  "independent_vars (snd (update_fit s)) = independent_vars s"
  "model (snd (update_fit s)) = model s"
  "y_field (snd (update_fit s)) = y_field s"
  "init_guess (snd (update_fit s)) = init_guess s"
  "update_every (snd (update_fit s)) = update_every s"
  by (simp_all add: update_fit_def Let_def)

lemma fit_kwargs_cong:
  "independent_vars_data s' = independent_vars_data s \<Longrightarrow> init_guess s' = init_guess s \<Longrightarrow>
   fit_kwargs s' = fit_kwargs s"
  by (simp add: fit_kwargs_def)

lemma update_fit_keys_bound: "keys_bound s \<Longrightarrow> keys_bound (snd (update_fit s))"
  by (simp add: keys_bound_def)

lemma update_fit_series_aligned: "series_aligned s \<Longrightarrow> series_aligned (snd (update_fit s))"
  by (simp add: series_aligned_def)

lemma update_fit_result_current:
  "result_current s \<Longrightarrow> result_current (snd (update_fit s))"
  by (simp add: result_current_def update_fit_def Let_def fit_kwargs_def)

lemma update_fit_result_current_enough:
  "length (param_names (model s)) \<le> length (ydata s) \<Longrightarrow> result_current (snd (update_fit s))"
  by (simp add: result_current_def update_fit_def Let_def fit_kwargs_def)

lemma fst_blank [simp]: "(\<lambda>x. fst (case x of (k, v) \<Rightarrow> (k, c))) ` A = fst ` A"
  by (rule image_cong) (simp_all add: split_def)

lemma list_all_blank [simp]: "list_all (\<lambda>(k, v). v = []) (map (\<lambda>(k, v). (k, [])) xs)"
  by (induction xs) auto

lemma reset_invs:
  "keys_bound s \<Longrightarrow> keys_bound (reset s)"
  "series_aligned (reset s)"
  "result_current (reset s)"
  by (simp_all add: keys_bound_def series_aligned_def result_current_def reset_def)

lemma set_independent_vars_invs:
  assumes "set_independent_vars val s = Inr s'"
  shows "keys_bound s'" "series_aligned s'" "result_current s'"
proof -
  from assms have s': "s' = reset (s\<lparr>independent_vars := val,
      independent_vars_data := map (\<lambda>(k, f). (k, [])) val\<rparr>)"
    by (simp add: set_independent_vars_def split: if_splits)
  have "keys_bound (s\<lparr>independent_vars := val,
      independent_vars_data := map (\<lambda>(k, f). (k, [])) val\<rparr>)"
    by (simp add: keys_bound_def)
  then show "keys_bound s'" unfolding s' by (rule reset_invs)
  show "series_aligned s'" "result_current s'" unfolding s' by (rule reset_invs)+
qed

lemma event_fields [simp]:
  "independent_vars (snd (snd (event data s))) = independent_vars s"
  "model (snd (snd (event data s))) = model s"
  "y_field (snd (snd (event data s))) = y_field s"
  "init_guess (snd (snd (event data s))) = init_guess s"
  "update_every (snd (snd (event data s))) = update_every s"
  by (auto simp: event_def update_caches_def Let_def update_fit_def
      split: option.splits sum.splits prod.splits)

lemma event_keys_bound:
  assumes "keys_bound s" shows "keys_bound (snd (snd (event data s)))"
  using assms unfolding event_cases[OF assms]
  by (auto simp: keys_bound_def Let_def update_fit_def image_image split_def
      split: option.splits prod.splits)

lemma event_series_aligned:
  assumes "keys_bound s" "series_aligned s" shows "series_aligned (snd (snd (event data s)))"
  using assms unfolding event_cases[OF assms(1)]
  by (auto simp: series_aligned_def Let_def update_fit_def list_all_iff
      split: option.splits prod.splits)

lemma event_result_current:
  assumes "keys_bound s" "result_current s" shows "result_current (snd (snd (event data s)))"
  using assms unfolding event_cases[OF assms(1)]
  by (auto simp: result_current_def Let_def update_fit_def fit_kwargs_def
      split: option.splits prod.splits)

lemma stop_invs:
  "keys_bound s \<Longrightarrow> keys_bound (snd (stop s))"
  "series_aligned s \<Longrightarrow> series_aligned (snd (stop s))"
  "result_current s \<Longrightarrow> result_current (snd (stop s))"
  by (simp_all add: stop_def update_fit_keys_bound update_fit_series_aligned
      update_fit_result_current)

lemma init_invs:
  assumes "LiveFit_init m yf ivs guess ue = Inr s"
  shows "keys_bound s" "series_aligned s" "result_current s"
proof -
  from assms obtain s0 where s0: "set_independent_vars ivs
        \<lparr>ydata = [], independent_vars_data = [], stale = False, result = None,
         model = m, y_field = yf, independent_vars = [], init_guess = [],
         update_every = Some 1\<rparr> = Inr s0"
    and s: "s = s0\<lparr>init_guess := (case guess of None \<Rightarrow> [] | Some g \<Rightarrow> g),
                         update_every := ue\<rparr>"
    by (auto simp: LiveFit_init_def split: sum.splits)
  from set_independent_vars_invs[OF s0] have "keys_bound s0" "series_aligned s0" by simp_all
  then show "keys_bound s" "series_aligned s" unfolding s
    by (simp_all add: keys_bound_def series_aligned_def)
  from s0 have "ydata s0 = []"
    by (auto simp: set_independent_vars_def reset_def split: if_splits)
  then show "result_current s" unfolding s by (simp add: result_current_def)
qed

lemma reachable_invs:
  "reachable s \<Longrightarrow> keys_bound s \<and> series_aligned s \<and> result_current s"
proof (induction rule: reachable.induct)
  case (reach_init m yf ivs guess ue s)
  then show ?case by (simp add: init_invs)
next
  case (reach_start s)
  then show ?case by (simp add: start_def reset_invs)
next
  case (reach_event s data)
  then show ?case by (simp add: event_keys_bound event_series_aligned event_result_current)
next
  case (reach_stop s)
  then show ?case by (simp add: stop_invs)
next
  case (reach_rebind s val s')
  then show ?case by (simp add: set_independent_vars_invs)
qed


lemma demo_coordinator_init:
  "LiveFit_init demo_model ''det'' [(''x'', ''motor'')] None ue = Inr (demo_coordinator ue)"
  by (simp add: LiveFit_init_def set_independent_vars_def reset_def demo_model_def
      demo_coordinator_def)

lemma demo_reachable: "reachable (demo_coordinator ue)"
  using demo_coordinator_init by (rule reach_init)

lemma demo_keys_bound: "keys_bound (demo_coordinator ue)"
  by (simp add: keys_bound_def demo_coordinator_def)

lemma event_raises:
  assumes "keys_bound s" "data (y_field s) \<noteq> None" "carries data (independent_vars s)"
  shows "fst (event data s) =
     (if update_every s = Some 0 \<and> length (param_names (model s)) < Suc (length (ydata s))
      then Some ZeroDivisionError else None)"
  using assms(2,3) unfolding event_cases[OF assms(1)]
  by (auto simp: Let_def split: option.splits prod.splits)

lemma event_appends:
  assumes "keys_bound s" "data (y_field s) = Some yv" "carries data (independent_vars s)"
  shows "ydata (snd (snd (event data s))) = ydata s @ [yv]"
    and "map fst (independent_vars_data (snd (snd (event data s)))) =
         map fst (independent_vars_data s)"
    and "map (length \<circ> snd) (independent_vars_data (snd (snd (event data s)))) =
         map (Suc \<circ> length \<circ> snd) (independent_vars_data s)"
  using assms(2,3) unfolding event_cases[OF assms(1)]
  by (auto simp: Let_def update_fit_def split: option.splits prod.splits)

lemma event_ignored: "data (y_field s) = None \<Longrightarrow> event data s = (None, [], s)"
  by (simp add: event_def)

lemma event_key_error:
  "data (y_field s) \<noteq> None \<Longrightarrow> \<not> carries data (independent_vars s) \<Longrightarrow>
   event data s = (Some KeyError, [], s)"
  by (auto simp: event_def lookup_bound_missing)

lemma event_effects:
  assumes "keys_bound s" "data (y_field s) \<noteq> None" "carries data (independent_vars s)"
    "update_every s = Some k" "k \<noteq> 0"
  shows "fst (snd (event data s)) =
     (let i = Suc (length (ydata s)); N = length (param_names (model s)) in
      if i = N \<or> (N < i \<and> (int i - 1) mod k = 0)
      then [FitCall (ydata (snd (snd (event data s)))) (fit_kwargs (snd (snd (event data s))))]
      else [])"
  using assms(2-) unfolding event_cases[OF assms(1)]
  by (auto simp: Let_def update_fit_def fit_kwargs_def split: option.splits prod.splits)


lemma update_fit_calls:
  "FitCall ys kw \<in> set (fst (update_fit s)) \<Longrightarrow> length (param_names (model s)) \<le> length ys"
  by (auto simp: update_fit_def Let_def split: if_splits)

lemma event_calls:
  "FitCall ys kw \<in> set (fst (snd (event data s))) \<Longrightarrow>
   length (param_names (model s)) \<le> length ys"
  by (auto simp: event_def update_caches_def Let_def update_fit_def
      split: option.splits sum.splits prod.splits if_splits)

lemma reset_fields [simp]:
  "model (reset s) = model s" "y_field (reset s) = y_field s"
  "update_every (reset s) = update_every s" "independent_vars (reset s) = independent_vars s"
  "ydata (reset s) = []" "result (reset s) = None" "stale (reset s) = False"
  by (simp_all add: reset_def)

lemma dispatch_model [simp]: "model (snd (snd (dispatch d s))) = model s"
  by (cases d) (simp_all add: start_def stop_def split_def)

lemma dispatch_calls:
  "FitCall ys kw \<in> set (fst (snd (dispatch d s))) \<Longrightarrow>
   length (param_names (model s)) \<le> length ys"
  by (cases d) (auto simp: stop_def split_def dest: event_calls update_fit_calls split: if_splits)

lemma run_calls:
  "FitCall ys kw \<in> set (fst (snd (run docs s))) \<Longrightarrow>
   length (param_names (model s)) \<le> length ys"
proof (induction docs arbitrary: s)
  case Nil
  then show ?case by simp
next
  case (Cons d docs)
  obtain e fx s' where d: "dispatch d s = (e, fx, s')" by (cases "dispatch d s") auto
  have m: "model s' = model s" using dispatch_model[of d s] d by simp
  show ?case
  proof (cases e)
    case (Some a)
    with Cons.prems d show ?thesis using dispatch_calls[of ys kw d s] by simp
  next
    case None
    obtain e' fx' s'' where r: "run docs s' = (e', fx', s'')" by (cases "run docs s'") auto
    from Cons.prems d None r have "FitCall ys kw \<in> set fx \<or> FitCall ys kw \<in> set fx'" by simp
    then show ?thesis
    proof
      assume "FitCall ys kw \<in> set fx"
      then show ?thesis using dispatch_calls[of ys kw d s] d by simp
    next
      assume "FitCall ys kw \<in> set fx'"
      then show ?thesis using Cons.IH[of s'] r m by simp
    qed
  qed
qed

text \<open>One event from a state with bound keys, when it does not raise.\<close>

lemma event_step:
  assumes kb: "keys_bound s" and ev: "event data s = (None, fx, s')"
  shows "keys_bound s'" "y_field s' = y_field s" "model s' = model s"
    "update_every s' = update_every s"
    "length (ydata s') = length (ydata s) + (if qualifying s data then 1 else 0)"
    "\<not> qualifying s data \<Longrightarrow> fx = []"
    "length (ydata s') < length (param_names (model s)) \<Longrightarrow> fx = []"
    "update_every s \<noteq> None \<Longrightarrow> qualifying s data \<Longrightarrow>
       length (ydata s') = length (param_names (model s)) \<Longrightarrow> fits fx = 1"
proof -
  show "keys_bound s'" using event_keys_bound[OF kb, of data] ev by simp
  show "y_field s' = y_field s" "model s' = model s" "update_every s' = update_every s"
    using event_fields[of data s] ev by simp_all
  show "length (ydata s') = length (ydata s) + (if qualifying s data then 1 else 0)"
    using ev unfolding event_cases[OF kb] qualifying_def
    by (auto simp: Let_def update_fit_def split: option.splits prod.splits if_splits)
  show "\<not> qualifying s data \<Longrightarrow> fx = []"
    using ev by (auto simp: qualifying_def event_def)
  show "length (ydata s') < length (param_names (model s)) \<Longrightarrow> fx = []"
    using ev unfolding event_cases[OF kb]
    by (auto simp: Let_def update_fit_def split: option.splits prod.splits if_splits)
  show "update_every s \<noteq> None \<Longrightarrow> qualifying s data \<Longrightarrow>
       length (ydata s') = length (param_names (model s)) \<Longrightarrow> fits fx = 1"
    using ev unfolding event_cases[OF kb] qualifying_def
    by (auto simp: Let_def update_fit_def fits_def split: option.splits prod.splits if_splits)
qed

lemma run_events_count:
  assumes "keys_bound s" "run (map Event ds) s = (None, fx, s')"
  shows "length (ydata s') = length (ydata s) + length (filter (qualifying s) ds)"
  using assms
proof (induction ds arbitrary: s fx)
  case Nil
  then show ?case by simp
next
  case (Cons d ds)
  obtain e1 fx1 s1 where d: "event d s = (e1, fx1, s1)" by (cases "event d s") auto
  with Cons.prems(2) have e1: "e1 = None" by (cases e1) auto
  obtain e2 fx2 s2 where r: "run (map Event ds) s1 = (e2, fx2, s2)"
    by (cases "run (map Event ds) s1") auto
  from Cons.prems(2) d e1 r have s2: "e2 = None" "s2 = s'" by simp_all
  note st = event_step[OF Cons.prems(1) d[unfolded e1]]
  have q: "qualifying s1 = qualifying s" by (simp add: fun_eq_iff qualifying_def st(2))
  from Cons.IH[OF st(1) r[unfolded s2]] st(5) q show ?case by simp
qed

lemma run_events_quiet:
  assumes "keys_bound s" "run (map Event ds) s = (None, fx, s')"
    "length (filter (qualifying s) ds) = 0 \<or> length (ydata s') < length (param_names (model s))"
  shows "fx = []"
  using assms
proof (induction ds arbitrary: s fx)
  case Nil
  then show ?case by simp
next
  case (Cons d ds)
  obtain e1 fx1 s1 where d: "event d s = (e1, fx1, s1)" by (cases "event d s") auto
  with Cons.prems(2) have e1: "e1 = None" by (cases e1) auto
  obtain e2 fx2 s2 where r: "run (map Event ds) s1 = (e2, fx2, s2)"
    by (cases "run (map Event ds) s1") auto
  from Cons.prems(2) d e1 r have s2: "e2 = None" "s2 = s'" "fx = fx1 @ fx2" by simp_all
  note st = event_step[OF Cons.prems(1) d[unfolded e1]]
  have q: "qualifying s1 = qualifying s" by (simp add: fun_eq_iff qualifying_def st(2))
  note cnt = run_events_count[OF st(1) r[unfolded s2(1,2)]]
  from Cons.prems(3) have "fx1 = []"
  proof
    assume "length (filter (qualifying s) (d # ds)) = 0"
    then have "\<not> qualifying s d" by (auto split: if_splits)
    then show ?thesis by (rule st(6))
  next
    assume "length (ydata s') < length (param_names (model s))"
    with cnt have "length (ydata s1) < length (param_names (model s))" by simp
    then show ?thesis by (rule st(7))
  qed
  moreover have "fx2 = []"
  proof (rule Cons.IH[OF st(1) r[unfolded s2(1,2)]])
    from Cons.prems(3) show "length (filter (qualifying s1) ds) = 0 \<or>
        length (ydata s') < length (param_names (model s1))"
      unfolding q st(3) by (auto split: if_splits)
  qed
  ultimately show ?case using s2 by simp
qed

lemma run_events_first_fit:
  assumes "keys_bound s" "run (map Event ds) s = (None, fx, s')" "update_every s \<noteq> None"
    "length (ydata s) < length (param_names (model s))"
    "length (ydata s') = length (param_names (model s))"
  shows "fits fx = 1"
  using assms
proof (induction ds arbitrary: s fx)
  case Nil
  then show ?case by simp
next
  case (Cons d ds)
  obtain e1 fx1 s1 where d: "event d s = (e1, fx1, s1)" by (cases "event d s") auto
  with Cons.prems(2) have e1: "e1 = None" by (cases e1) auto
  obtain e2 fx2 s2 where r: "run (map Event ds) s1 = (e2, fx2, s2)"
    by (cases "run (map Event ds) s1") auto
  from Cons.prems(2) d e1 r have s2: "e2 = None" "s2 = s'" "fx = fx1 @ fx2" by simp_all
  note st = event_step[OF Cons.prems(1) d[unfolded e1]]
  have q: "qualifying s1 = qualifying s" by (simp add: fun_eq_iff qualifying_def st(2))
  note r' = r[unfolded s2(1,2)]
  note cnt = run_events_count[OF st(1) r']
  show ?case
  proof (cases "length (ydata s1) < length (param_names (model s))")
    case True
    then have "fx1 = []" by (rule st(7))
    moreover have "fits fx2 = 1"
      using Cons.IH[OF st(1) r'] Cons.prems(3,5) True st(3,4) by simp
    ultimately show ?thesis using s2 by simp
  next
    case False
    with Cons.prems(4) st(5) have qd: "qualifying s d"
      and len: "length (ydata s1) = length (param_names (model s))"
      by (auto split: if_splits)
    from st(8)[OF Cons.prems(3) qd len] have "fits fx1 = 1" .
    moreover have "fx2 = []"
      using run_events_quiet[OF st(1) r'] cnt len Cons.prems(5) by simp
    ultimately show ?thesis using s2 by (simp add: fits_def)
  qed
qed


lemma run_reachable: "reachable s \<Longrightarrow> reachable (snd (snd (run docs s)))"
proof (induction docs arbitrary: s)
  case Nil
  then show ?case by simp
next
  case (Cons d docs)
  have r: "reachable (snd (snd (dispatch d s)))"
  proof (cases d)
    case Start
    then show ?thesis using Cons.prems by (simp add: reach_start)
  next
    case (Event data)
    then show ?thesis using Cons.prems by (simp add: reach_event)
  next
    case Stop
    then show ?thesis using reach_stop[OF Cons.prems] by (simp add: split_def)
  qed
  obtain e fx s' where d: "dispatch d s = (e, fx, s')" by (cases "dispatch d s") auto
  show ?case
  proof (cases e)
    case None
    with d r Cons.IH[of s'] show ?thesis by (simp add: split_def)
  next
    case (Some a)
    with d r show ?thesis by simp
  qed
qed

lemma demo_state_reachable: "reachable (demo_state ue docs)"
  unfolding demo_state_def using demo_reachable by (rule run_reachable)

lemmas demo_eval = demo_state_def demo_coordinator_def demo_model_def demo_event_def
  start_def reset_def stop_def event_def update_caches_def update_fit_def fit_kwargs_def
  dict_update_def fits_def qualifying_def carries_def keys_bound_def


lemma reset_series_empty: "list_all (\<lambda>(k, v). v = []) (independent_vars_data (reset s))"
  by (simp add: reset_def)

subsection \<open>The claims about the coordinator\<close>

text \<open>
  C8. A fit attempted with fewer accumulated samples than the model has free
  parameters emits the warning, returns normally, and leaves the whole object, the
  stored result included, as it was.
\<close>

theorem update_fit_insufficient_data:
  "length (ydata s) < length (param_names (model s)) \<Longrightarrow>
   update_fit s = ([Warn (length (param_names (model s)))], s)"
  by (simp add: update_fit_def)

theorem update_fit_insufficient_data_witness:
  "update_fit (demo_state (Some 1) [Start, Event (demo_event 0 5)]) =
     ([Warn 2], demo_state (Some 1) [Start, Event (demo_event 0 5)]) \<and>
   ydata (demo_state (Some 1) [Start, Event (demo_event 0 5)]) = [5]"
  using update_fit_insufficient_data [of "demo_state (Some 1) [Start, Event (demo_event 0 5)]"]
  by (simp add: demo_eval)

text \<open>
  C10. With \<^verbatim>\<open>update_every = 0\<close>, an event document that carries the dependent field and
  the bound fields raises \<^verbatim>\<open>ZeroDivisionError\<close> exactly when it brings the sample count
  above the number of free parameters; up to that count the event returns normally.
\<close>

theorem event_zero_divisor:
  assumes "keys_bound s" and "update_every s = Some 0"
    and "qualifying s data" and "carries data (independent_vars s)"
  shows "fst (event data s) =
     (if length (param_names (model s)) < Suc (length (ydata s))
      then Some ZeroDivisionError else None)"
  using event_raises[OF assms(1) _ assms(4)] assms(2,3) by (simp add: qualifying_def)

theorem event_zero_divisor_witness:
  "fst (event (demo_event 1 1) (demo_state (Some 0) [Start, Event (demo_event 0 0)])) = None \<and>
   fst (event (demo_event 2 4)
       (demo_state (Some 0) [Start, Event (demo_event 0 0), Event (demo_event 1 1)])) =
     Some ZeroDivisionError"
  using event_zero_divisor [of "demo_state (Some 0) [Start, Event (demo_event 0 0)]"
      "demo_event 1 1"]
    event_zero_divisor [of "demo_state (Some 0) [Start, Event (demo_event 0 0), Event (demo_event 1 1)]"
      "demo_event 2 4"]
  by (simp add: demo_eval)

text \<open>
  C5. In a state the coordinator can reach with at least one sample and at least as
  many samples as free parameters, \<open>stop\<close> leaves the stored result equal to the fit of
  all accumulated samples: it performs one final fit when the dirty flag is set, and
  none otherwise, the stored result being current already.
\<close>

theorem stop_reflects_all_samples:
  assumes "reachable s" and "length (param_names (model s)) \<le> length (ydata s)"
    and "ydata s \<noteq> []"
  shows "result (snd (stop s)) = Some (fit (model s) (ydata s) (fit_kwargs s)) \<and>
     ydata (snd (stop s)) = ydata s \<and>
     independent_vars_data (snd (stop s)) = independent_vars_data s \<and>
     \<not> stale (snd (stop s)) \<and>
     fst (stop s) = (if stale s then [FitCall (ydata s) (fit_kwargs s)] else [])"
proof -
  from reachable_invs[OF assms(1)] have "result_current s" by simp
  then show ?thesis using assms(2,3)
    by (auto simp: stop_def update_fit_def result_current_def)
qed

theorem stop_reflects_all_samples_witness:
  "stale (demo_state (Some 3)
       [Start, Event (demo_event 0 0), Event (demo_event 1 1), Event (demo_event 2 4)]) \<and>
   result (demo_state (Some 3)
       [Start, Event (demo_event 0 0), Event (demo_event 1 1), Event (demo_event 2 4)]) =
     Some ([0, 1], [(''x'', Series [0, 1])]) \<and>
   result (snd (stop (demo_state (Some 3)
       [Start, Event (demo_event 0 0), Event (demo_event 1 1), Event (demo_event 2 4)]))) =
     Some ([0, 1, 4], [(''x'', Series [0, 1, 2])])"
  using stop_reflects_all_samples [OF demo_state_reachable, of "Some 3"
      "[Start, Event (demo_event 0 0), Event (demo_event 1 1), Event (demo_event 2 4)]"]
  by (simp add: demo_eval)

text \<open>
  C7. In every state the coordinator can be observed in, each bound role has a series
  and every series is as long as the dependent-variable series. An event document that
  carries the dependent field and the bound fields appends exactly one value to each
  series; a document without the dependent field changes nothing; \<open>start\<close> and an
  accepted rebinding empty every series.
\<close>

theorem series_equal_length:
  assumes "reachable s"
  shows "list_all (\<lambda>(k, v). length v = length (ydata s)) (independent_vars_data s) \<and>
     set (map fst (independent_vars_data s)) = set (map fst (independent_vars s)) \<and>
     (qualifying s data \<and> carries data (independent_vars s) \<longrightarrow>
        length (ydata (snd (snd (event data s)))) = Suc (length (ydata s)) \<and>
        map (length \<circ> snd) (independent_vars_data (snd (snd (event data s)))) =
          map (Suc \<circ> length \<circ> snd) (independent_vars_data s)) \<and>
     (\<not> qualifying s data \<longrightarrow> snd (snd (event data s)) = s) \<and>
     ydata (start s) = [] \<and>
     list_all (\<lambda>(k, v). v = []) (independent_vars_data (start s)) \<and>
     (set_independent_vars val s = Inr s' \<longrightarrow>
        ydata s' = [] \<and> list_all (\<lambda>(k, v). v = []) (independent_vars_data s'))"
proof -
  note inv = reachable_invs[OF assms]
  have a: "list_all (\<lambda>(k, v). length v = length (ydata s)) (independent_vars_data s)"
    using inv by (simp add: series_aligned_def)
  have b: "set (map fst (independent_vars_data s)) = set (map fst (independent_vars s))"
    using inv by (simp add: keys_bound_def)
  have c: "qualifying s data \<and> carries data (independent_vars s) \<longrightarrow>
        length (ydata (snd (snd (event data s)))) = Suc (length (ydata s)) \<and>
        map (length \<circ> snd) (independent_vars_data (snd (snd (event data s)))) =
          map (Suc \<circ> length \<circ> snd) (independent_vars_data s)"
  proof
    assume q: "qualifying s data \<and> carries data (independent_vars s)"
    then obtain yv where yv: "data (y_field s) = Some yv" by (auto simp: qualifying_def)
    from inv have kb: "keys_bound s" by simp
    from q have ca: "carries data (independent_vars s)" by simp
    from event_appends(1)[of s data yv, OF kb yv ca] event_appends(3)[of s data yv, OF kb yv ca]
    show "length (ydata (snd (snd (event data s)))) = Suc (length (ydata s)) \<and>
        map (length \<circ> snd) (independent_vars_data (snd (snd (event data s)))) =
          map (Suc \<circ> length \<circ> snd) (independent_vars_data s)" by simp
  qed
  have d: "\<not> qualifying s data \<longrightarrow> snd (snd (event data s)) = s"
    by (simp add: qualifying_def event_ignored)
  have e: "ydata (start s) = []"
    "list_all (\<lambda>(k, v). v = []) (independent_vars_data (start s))"
    by (simp_all add: start_def reset_series_empty)
  have f: "set_independent_vars val s = Inr s' \<longrightarrow>
        ydata s' = [] \<and> list_all (\<lambda>(k, v). v = []) (independent_vars_data s')"
  proof
    assume "set_independent_vars val s = Inr s'"
    then have "s' = reset (s\<lparr>independent_vars := val,
        independent_vars_data := map (\<lambda>(k, f). (k, [])) val\<rparr>)"
      by (simp add: set_independent_vars_def split: if_splits)
    then show "ydata s' = [] \<and> list_all (\<lambda>(k, v). v = []) (independent_vars_data s')"
      using reset_series_empty by simp
  qed
  from a b c d e f show ?thesis by blast
qed

theorem series_equal_length_witness:
  "independent_vars_data (demo_state (Some 1) [Start, Event (demo_event 0 0), Event (demo_event 1 1)]) =
     [(''x'', [0, 1])] \<and>
   ydata (demo_state (Some 1) [Start, Event (demo_event 0 0), Event (demo_event 1 1)]) = [0, 1] \<and>
   length (ydata (snd (snd (event (demo_event 2 4)
     (demo_state (Some 1) [Start, Event (demo_event 0 0), Event (demo_event 1 1)]))))) = 3 \<and>
   map (length \<circ> snd) (independent_vars_data (snd (snd (event (demo_event 2 4)
     (demo_state (Some 1) [Start, Event (demo_event 0 0), Event (demo_event 1 1)]))))) = [3] \<and>
   set_independent_vars [(''x'', ''slit'')]
     (demo_state (Some 1) [Start, Event (demo_event 0 0), Event (demo_event 1 1)]) =
     Inr ((demo_coordinator (Some 1))\<lparr>independent_vars := [(''x'', ''slit'')]\<rparr>)"
  using series_equal_length [OF demo_state_reachable, of "Some 1"
      "[Start, Event (demo_event 0 0), Event (demo_event 1 1)]" "demo_event 2 4"
      "[(''x'', ''slit'')]" "(demo_coordinator (Some 1))\<lparr>independent_vars := [(''x'', ''slit'')]\<rparr>"]
  by (simp add: demo_eval set_independent_vars_def)


lemma run_model [simp]: "model (snd (snd (run docs s))) = model s"
proof (induction docs arbitrary: s)
  case Nil
  then show ?case by simp
next
  case (Cons d docs)
  obtain e fx s' where d: "dispatch d s = (e, fx, s')" by (cases "dispatch d s") auto
  have m: "model s' = model s" using dispatch_model[of d s] d by simp
  show ?case
  proof (cases e)
    case None
    with d m Cons.IH[of s'] show ?thesis by (simp add: split_def)
  next
    case (Some a)
    with d m show ?thesis by simp
  qed
qed

text \<open>
  C3, as stated, fails: the event transition can raise. The document \<^verbatim>\<open>{'det': 7}\<close>
  carries the dependent field of the coordinator bound with \<^verbatim>\<open>{'x': 'motor'}\<close> but not
  the bound field \<open>motor\<close>, and line 81 raises \<^verbatim>\<open>KeyError\<close>.
\<close>

theorem event_missing_field_counterexample:
  "qualifying (demo_coordinator (Some 1)) [''det'' \<mapsto> 7] \<and>
   event [''det'' \<mapsto> 7] (demo_coordinator (Some 1)) =
     (Some KeyError, [], demo_coordinator (Some 1))"
  by (simp add: demo_eval)

text \<open>
  C3, as amended. An event document without the dependent field is ignored: no
  exception, no effect, no state change. A document with the dependent field that lacks
  a bound independent-variable field is not tolerated: the lookup raises \<^verbatim>\<open>KeyError\<close>,
  before any append. A document with the dependent field and every bound field raises no
  lookup error; the only exception left is the \<^verbatim>\<open>ZeroDivisionError\<close> of a cadence of
  zero.
\<close>

theorem event_missing_field:
  assumes "keys_bound s"
  shows "(\<not> qualifying s data \<longrightarrow> event data s = (None, [], s)) \<and>
     (qualifying s data \<and> \<not> carries data (independent_vars s) \<longrightarrow>
        event data s = (Some KeyError, [], s)) \<and>
     (qualifying s data \<and> carries data (independent_vars s) \<longrightarrow>
        fst (event data s) \<noteq> Some KeyError \<and>
        (update_every s \<noteq> Some 0 \<longrightarrow> fst (event data s) = None))"
  using event_raises[OF assms, of data]
  by (auto simp: qualifying_def event_ignored event_key_error)

theorem event_missing_field_witness:
  "event [''motor'' \<mapsto> 3] (demo_state (Some 1) [Start, Event (demo_event 0 5)]) =
     (None, [], demo_state (Some 1) [Start, Event (demo_event 0 5)]) \<and>
   event [''det'' \<mapsto> 7] (demo_state (Some 1) [Start, Event (demo_event 0 5)]) =
     (Some KeyError, [], demo_state (Some 1) [Start, Event (demo_event 0 5)]) \<and>
   fst (event (demo_event 1 7) (demo_state (Some 1) [Start, Event (demo_event 0 5)])) = None"
  using event_missing_field [of "demo_state (Some 1) [Start, Event (demo_event 0 5)]"
      "[''motor'' \<mapsto> 3]"]
    event_missing_field [of "demo_state (Some 1) [Start, Event (demo_event 0 5)]"
      "[''det'' \<mapsto> 7]"]
    event_missing_field [of "demo_state (Some 1) [Start, Event (demo_event 0 5)]"
      "demo_event 1 7"]
  by (simp add: demo_eval)

text \<open>
  C1, as stated, fails: with two free parameters and \<^verbatim>\<open>update_every = 2\<close> the third
  sample triggers a fit although \<open>3\<close> is none of \<open>2, 4, 6, ...\<close>, and the fourth sample
  triggers none although \<open>4 = N + k\<close>.
\<close>

theorem fit_cadence_counterexample:
  "fits (fst (snd (event (demo_event 2 4)
      (demo_state (Some 2) [Start, Event (demo_event 0 0), Event (demo_event 1 1)])))) = 1 \<and>
   \<not> spec_fit_counts 2 2 3 \<and>
   fits (fst (snd (event (demo_event 3 9)
      (demo_state (Some 2) [Start, Event (demo_event 0 0), Event (demo_event 1 1),
         Event (demo_event 2 4)])))) = 0 \<and>
   spec_fit_counts 2 2 4"
  by (simp add: demo_eval spec_fit_counts_def)

text \<open>
  C1, as amended. With \<^verbatim>\<open>update_every = k\<close>, \<open>k\<close> positive, an event document that
  carries the dependent field and the bound fields returns normally, and it performs a
  fit exactly when the sample count \<open>i\<close> it reaches is \<open>N\<close>, or exceeds \<open>N\<close> with
  \<open>(i - 1) mod k = 0\<close>: the fits are at \<open>N\<close> and then at the counts \<open>1 + k\<close>,
  \<open>1 + 2k\<close>, ... above \<open>N\<close>. These are the counts \<open>N\<close>, \<open>N + k\<close>, \<open>N + 2k\<close>, ... of
  the specification when \<open>k\<close> divides \<open>N - 1\<close>, as it does for \<open>k = 1\<close>.
\<close>

theorem fit_cadence:
  assumes "keys_bound s" and "update_every s = Some k" and "0 < k"
    and "qualifying s data" and "carries data (independent_vars s)"
  shows "fst (event data s) = None \<and>
     length (ydata (snd (snd (event data s)))) = Suc (length (ydata s)) \<and>
     fits (fst (snd (event data s))) =
       (if Suc (length (ydata s)) = length (param_names (model s)) \<or>
           (length (param_names (model s)) < Suc (length (ydata s)) \<and>
            (int (Suc (length (ydata s))) - 1) mod k = 0)
        then 1 else 0) \<and>
     ((int (length (param_names (model s))) - 1) mod k = 0 \<longrightarrow>
        fits (fst (snd (event data s))) =
          (if spec_fit_counts (length (param_names (model s))) (nat k) (Suc (length (ydata s)))
           then 1 else 0))"
proof -
  let ?N = "length (param_names (model s))"
  let ?i = "Suc (length (ydata s))"
  from assms(4) obtain yv where yv: "data (y_field s) = Some yv"
    by (auto simp: qualifying_def)
  have q: "data (y_field s) \<noteq> None" using yv by simp
  have k: "k \<noteq> 0" using assms(3) by simp
  have a: "fst (event data s) = None"
    using event_raises[OF assms(1) q assms(5)] assms(2) k by simp
  have b: "length (ydata (snd (snd (event data s)))) = ?i"
    using event_appends(1)[of s data yv, OF assms(1) yv assms(5)] by simp
  have c: "fits (fst (snd (event data s))) =
       (if ?i = ?N \<or> (?N < ?i \<and> int (length (ydata s)) mod k = 0) then 1 else 0)"
    using event_effects[OF assms(1) q assms(5) assms(2) k] by (simp add: Let_def fits_def)
  have d: "(if ?i = ?N \<or> (?N < ?i \<and> int (length (ydata s)) mod k = 0) then 1 else 0) =
       (if spec_fit_counts ?N (nat k) ?i then 1 else (0::nat))"
    if dv: "(int ?N - 1) mod k = 0"
  proof (cases "?N \<le> ?i")
    case False
    then show ?thesis by (simp add: spec_fit_counts_def)
  next
    case True
    have "int ((?i - ?N) mod nat k) = (int ?i - int ?N) mod k"
      using True assms(3) by (simp add: zmod_int of_nat_diff)
    then have e: "(?i - ?N) mod nat k = 0 \<longleftrightarrow> (int ?i - int ?N) mod k = 0"
      by (metis of_nat_eq_0_iff)
    have "int ?i - int ?N = int (length (ydata s)) - (int ?N - 1)" by simp
    then have "(int ?i - int ?N) mod k = 0 \<longleftrightarrow> int (length (ydata s)) mod k = 0"
      using dv by (metis diff_zero mod_diff_right_eq)
    with e have f: "(?i - ?N) mod nat k = 0 \<longleftrightarrow> int (length (ydata s)) mod k = 0" by simp
    show ?thesis
    proof (cases "?i = ?N")
      case True
      then show ?thesis by (simp add: spec_fit_counts_def)
    next
      case False
      with True have "?N < ?i" by simp
      then show ?thesis using f True by (simp add: spec_fit_counts_def)
    qed
  qed
  from a b c d show ?thesis by simp
qed

theorem fit_cadence_witness:
  "fits (fst (snd (event (demo_event 2 4)
      (demo_state (Some 2) [Start, Event (demo_event 0 0), Event (demo_event 1 1)])))) = 1 \<and>
   fits (fst (snd (event (demo_event 2 4)
      (demo_state (Some 1) [Start, Event (demo_event 0 0), Event (demo_event 1 1)])))) = 1 \<and>
   spec_fit_counts 2 1 3"
  using fit_cadence [of "demo_state (Some 2) [Start, Event (demo_event 0 0), Event (demo_event 1 1)]"
      2 "demo_event 2 4"]
    fit_cadence [of "demo_state (Some 1) [Start, Event (demo_event 0 0), Event (demo_event 1 1)]"
      1 "demo_event 2 4"]
  by (simp add: demo_eval spec_fit_counts_def)


text \<open>
  C4, as stated, fails in its second half: a run of one event for a model with two free
  parameters ends with \<open>stop\<close> attempting a fit on one sample, which emits the
  insufficient-data warning.
\<close>

theorem first_possible_fit_counterexample:
  "run [Start, Event (demo_event 0 5), Stop] (demo_coordinator (Some 1)) =
     (None, [Warn 2], demo_state (Some 1) [Start, Event (demo_event 0 5)]) \<and>
   length (ydata (demo_state (Some 1) [Start, Event (demo_event 0 5)])) = 1 \<and>
   length (param_names (model (demo_coordinator (Some 1)))) = 2"
  by (simp add: demo_eval)

text \<open>
  C4, as amended. Take a run from \<open>start\<close> whose event documents are all processed
  without an exception, for a coordinator whose \<^verbatim>\<open>update_every\<close> is not \<^verbatim>\<open>None\<close>. The
  sample count is the number of qualifying documents. While it is below \<open>N\<close>, event
  processing has attempted no fit (no solver call, no warning); when it is \<open>N > 0\<close>,
  exactly one fit has been performed. In any sequence of documents whatever, the solver
  is never called with fewer than \<open>N\<close> samples. The \<open>stop\<close> transition, however, does
  attempt a fit whenever the dirty flag is set, also below \<open>N\<close> samples: the attempt
  emits the warning and fits nothing.
\<close>

theorem first_possible_fit:
  assumes "reachable s0" and "update_every s0 \<noteq> None"
    and "run (Start # map Event ds) s0 = (None, fx, s)"
  shows "length (ydata s) = length (filter (qualifying s0) ds) \<and>
     (length (filter (qualifying s0) ds) < length (param_names (model s0)) \<longrightarrow> fx = []) \<and>
     (length (filter (qualifying s0) ds) = length (param_names (model s0)) \<and>
      0 < length (param_names (model s0)) \<longrightarrow> fits fx = 1) \<and>
     list_all (\<lambda>e. case e of FitCall ys kw \<Rightarrow> length (param_names (model s0)) \<le> length ys
                     | Warn n \<Rightarrow> True) (fst (snd (run docs s0))) \<and>
     (stale s \<and> length (ydata s) < length (param_names (model s0)) \<longrightarrow>
        stop s = ([Warn (length (param_names (model s0)))], s))"
proof -
  let ?N = "length (param_names (model s0))"
  let ?s1 = "start s0"
  from reachable_invs[OF assms(1)] have "keys_bound s0" by simp
  then have kb: "keys_bound ?s1" by (simp add: start_def reset_invs)
  from assms(3) have r: "run (map Event ds) ?s1 = (None, fx, s)"
    by (simp add: split_def split: option.splits prod.splits)
  have q: "qualifying ?s1 = qualifying s0"
    by (simp add: fun_eq_iff qualifying_def start_def)
  have m: "model ?s1 = model s0" by (simp add: start_def)
  have a: "length (ydata s) = length (filter (qualifying s0) ds)"
    using run_events_count[OF kb r] q by (simp add: start_def)
  have b: "fx = []" if "length (filter (qualifying s0) ds) < ?N"
    using run_events_quiet[OF kb r] that a m by simp
  have c: "fits fx = 1" if "length (filter (qualifying s0) ds) = ?N \<and> 0 < ?N"
  proof (rule run_events_first_fit[OF kb r])
    show "update_every ?s1 \<noteq> None" using assms(2) by (simp add: start_def)
    show "length (ydata ?s1) < length (param_names (model ?s1))"
      using that by (simp add: start_def)
    show "length (ydata s) = length (param_names (model ?s1))" using that a m by simp
  qed
  have d: "list_all (\<lambda>e. case e of FitCall ys kw \<Rightarrow> ?N \<le> length ys | Warn n \<Rightarrow> True)
      (fst (snd (run docs s0)))"
    unfolding list_all_iff using run_calls[of _ _ docs s0] by (auto split: effect.splits)
  have ms: "model s = model s0"
    using run_model[of "map Event ds" ?s1] r m by simp
  have e: "stop s = ([Warn ?N], s)" if "stale s \<and> length (ydata s) < ?N"
    using that ms by (simp add: stop_def update_fit_def)
  from a b c d e show ?thesis by blast
qed

theorem first_possible_fit_witness:
  "run [Start, Event (demo_event 0 0), Event [''motor'' \<mapsto> 1], Event (demo_event 2 4)]
     (demo_coordinator (Some 5)) =
     (None, [FitCall [0, 4] [(''x'', Series [0, 2])]],
      demo_state (Some 5) [Start, Event (demo_event 0 0), Event (demo_event 2 4)]) \<and>
   fits [FitCall [0, 4] [(''x'', Series [0, 2 :: int])]] = 1 \<and>
   run [Start, Event (demo_event 0 0)] (demo_coordinator (Some 5)) =
     (None, [], demo_state (Some 5) [Start, Event (demo_event 0 0)]) \<and>
   stop (demo_state (Some 5) [Start, Event (demo_event 0 0)]) =
     ([Warn 2], demo_state (Some 5) [Start, Event (demo_event 0 0)])"
  using first_possible_fit [OF demo_reachable, of "Some 5"
      "[demo_event 0 0, [''motor'' \<mapsto> 1], demo_event 2 4]"
      "[FitCall [0, 4] [(''x'', Series [0, 2])]]"
      "demo_state (Some 5) [Start, Event (demo_event 0 0), Event (demo_event 2 4)]" "[]"]
    first_possible_fit [OF demo_reachable, of "Some 5" "[demo_event 0 0]" "[]"
      "demo_state (Some 5) [Start, Event (demo_event 0 0)]" "[]"]
  by (simp add: demo_eval)


section \<open>Properties of the centroid primitive and of the peak statistics\<close>

lemmas peak_eval = calc_stats_def peak_fields_def cen_list_def crossing_indices_def
  crossing_x_def half_max_def argmin_def argmax_def center_of_mass_def np_divide_def
  interp_def np_mean_def fsub_def PeakStats_init_def initial_stats_fields_def dict_update_def
  remove_background_def slice_to_def slice_from_def mean_def detrended_def
  compute_def getitem_def





lemma compute_stats_fields [simp]: "stats_fields (snd (compute ps)) = stats_fields ps"
  by (simp add: compute_def Let_def split: outcome.splits prod.splits option.splits)

lemma init_stats_fields_keys:
  "map fst (stats_fields (PeakStats_init xn yn ec cd)) =
     [''min'', ''max'', ''com'', ''cen'', ''crossings'', ''fwhm'', ''lin_bnk'']"
  by (simp add: PeakStats_init_def initial_stats_fields_def)

lemma demo_collect:
  "collect ''motor'' ''det'' demo_peak_events = [(0, 1), (1, 5), (2, 3)]"
  by (simp add: demo_peak_events_def)

lemma demo_calc_stats:
  "calc_stats [0, 1, 2] [1, 5, 3] initial_stats_fields (Some 1) =
   Returned [(''min'', Point 0 0), (''max'', Point 1 3), (''com'', Array [Finite 1]),
     (''cen'', Scalar (Finite 1)), (''crossings'', Array [Finite (1 / 2), Finite (3 / 2)]),
     (''fwhm'', Scalar (Finite 1)), (''lin_bnk'', Unset), (''lin_bkg'', LinBkg 1 1)]"
  by (simp add: peak_eval upt_rec Let_def)

text \<open>
  C2. The background line is recorded in the \<^verbatim>\<open>Stats\<close> tuple under \<open>lin_bkg\<close>, but
  the table of stats fields spells the key \<open>lin_bnk\<close>: whatever the configuration and
  the events, the lookup of \<open>lin_bkg\<close> on the engine raises \<^verbatim>\<open>KeyError\<close>, before and
  after \<open>compute\<close>, and the slope and the intercept do not reach the engine's
  attributes.
\<close>

theorem lin_bkg_lookup_raises:
  "getitem (PeakStats_init xn yn ec cd) ''lin_bkg'' = Inl KeyError \<and>
   getitem (snd (compute ((PeakStats_init xn yn ec cd)\<lparr>events := evs\<rparr>))) ''lin_bkg'' =
     Inl KeyError \<and>
   calc_stats [0, 1, 2] [1, 5, 3] initial_stats_fields (Some 1) =
     Returned [(''min'', Point 0 0), (''max'', Point 1 3), (''com'', Array [Finite 1]),
       (''cen'', Scalar (Finite 1)), (''crossings'', Array [Finite (1 / 2), Finite (3 / 2)]),
       (''fwhm'', Scalar (Finite 1)), (''lin_bnk'', Unset), (''lin_bkg'', LinBkg 1 1)] \<and>
   fst (compute ((PeakStats_init ''motor'' ''det'' (Some 1) False)
          \<lparr>events := demo_peak_events\<rparr>)) = Returned () \<and>
   map_of (attrs (snd (compute ((PeakStats_init ''motor'' ''det'' (Some 1) False)
          \<lparr>events := demo_peak_events\<rparr>)))) ''lin_bkg'' = None \<and>
   getitem (snd (compute ((PeakStats_init ''motor'' ''det'' (Some 1) False)
          \<lparr>events := demo_peak_events\<rparr>))) ''lin_bnk'' = Inr Unset"
proof -
  have k: "''lin_bkg'' \<notin> set (map fst (stats_fields (PeakStats_init xn yn ec cd)))"
    unfolding init_stats_fields_keys by simp
  have a: "getitem (PeakStats_init xn yn ec cd) ''lin_bkg'' = Inl KeyError"
    using k by (simp add: getitem_def)
  have "stats_fields (snd (compute ((PeakStats_init xn yn ec cd)\<lparr>events := evs\<rparr>))) =
      stats_fields (PeakStats_init xn yn ec cd)"
    by (simp add: PeakStats_init_def)
  then have b: "getitem (snd (compute ((PeakStats_init xn yn ec cd)\<lparr>events := evs\<rparr>)))
      ''lin_bkg'' = Inl KeyError"
    using k by (simp add: getitem_def)
  note c = demo_calc_stats
  have d: "compute ((PeakStats_init ''motor'' ''det'' (Some 1) False)
          \<lparr>events := demo_peak_events\<rparr>) =
     (Returned (), (PeakStats_init ''motor'' ''det'' (Some 1) False)
        \<lparr>events := demo_peak_events, x_data := Some [0, 1, 2], y_data := Some [1, 5, 3],
         attrs := [(''min'', Point 0 0), (''max'', Point 1 3), (''com'', Array [Finite 1]),
           (''cen'', Scalar (Finite 1)),
           (''crossings'', Array [Finite (1 / 2), Finite (3 / 2)]),
           (''fwhm'', Scalar (Finite 1)), (''lin_bnk'', Unset)]\<rparr>)"
    by (simp add: compute_def Let_def PeakStats_init_def demo_collect demo_calc_stats)
       (simp add: initial_stats_fields_def dict_update_def)
  from a b c show ?thesis unfolding d
    by (simp add: getitem_def PeakStats_init_def initial_stats_fields_def)
qed










lemma calc_stats_returns:
  assumes "length x = length y" and "y \<noteq> []" and "detrended x y ec \<noteq> None"
  shows "\<exists>stats. calc_stats x y flds ec = Returned stats"
proof (cases ec)
  case None
  with assms show ?thesis by (simp add: calc_stats_def peak_fields_def Let_def)
next
  case (Some e)
  with assms(3) obtain m b y' where rb: "remove_background x y e = Some (m, b, y')"
    by (auto simp: detrended_def)
  then have "y' = map2 (\<lambda>xv yv. yv - (m * xv + b)) x y"
    by (auto simp: remove_background_def Let_def split: if_splits)
  with assms(1,2) have "y' \<noteq> []" by (cases x; cases y) simp_all
  with Some rb assms(1) show ?thesis by (simp add: calc_stats_def peak_fields_def Let_def)
qed





end
